theory Spec2Isabelle
  imports Main
begin

section \<open>Text primitives of the Python runtime\<close>

text \<open>
  The program is \<^verbatim>\<open>main.py\<close> of WHACK.  Python's \<^verbatim>\<open>str\<close> is modelled as
  \<^typ>\<open>string\<close>; a \<^typ>\<open>char\<close> stands for the code point of the same number, so the
  model covers text whose code points are below 256.  The character classes below are
  those of \<^verbatim>\<open>str.isspace\<close>, \<^verbatim>\<open>str.splitlines\<close> and \<^verbatim>\<open>str.lower\<close> on that range.
\<close>

definition isspace :: "char \<Rightarrow> bool" where
  "isspace c \<longleftrightarrow> c \<in> set [CHR 0x09, CHR 0x0A, CHR 0x0B, CHR 0x0C, CHR 0x0D,
                          CHR 0x1C, CHR 0x1D, CHR 0x1E, CHR 0x1F, CHR 0x20, CHR 0x85, CHR 0xA0]"

definition linebreak :: "char \<Rightarrow> bool" where
  "linebreak c \<longleftrightarrow> c \<in> set [CHR 0x0A, CHR 0x0B, CHR 0x0C, CHR 0x0D,
                            CHR 0x1C, CHR 0x1D, CHR 0x1E, CHR 0x85]"

text \<open>\<^verbatim>\<open>s.strip()\<close>\<close>

definition strip :: "string \<Rightarrow> string" where
  "strip s = rev (dropWhile isspace (rev (dropWhile isspace s)))"

text \<open>\<^verbatim>\<open>c.lower()\<close> for one character, and \<^verbatim>\<open>s.lower()\<close>\<close>

definition lower_char :: "char \<Rightarrow> char" where
  "lower_char c =
     (let n = (of_char c :: nat)
      in if (65 \<le> n \<and> n \<le> 90) \<or> (192 \<le> n \<and> n \<le> 222 \<and> n \<noteq> 215)
         then char_of (n + 32) else c)"

definition lower :: "string \<Rightarrow> string" where
  "lower s = map lower_char s"

text \<open>\<^verbatim>\<open>s.startswith(p)\<close> and \<^verbatim>\<open>p in s\<close>\<close>

definition startswith :: "string \<Rightarrow> string \<Rightarrow> bool" where
  "startswith s p \<longleftrightarrow> take (length p) s = p"

fun contains :: "string \<Rightarrow> string \<Rightarrow> bool" where
  "contains p [] = (p = [])"
| "contains p (c # cs) = (startswith (c # cs) p \<or> contains p cs)"

text \<open>Appending one character to the first piece of a split.\<close>

fun cons_head :: "char \<Rightarrow> string list \<Rightarrow> string list" where
  "cons_head c [] = [[c]]"
| "cons_head c (l # ls) = (c # l) # ls"

text \<open>\<^verbatim>\<open>s.split(sep)\<close> for a separator of one character: empty pieces are kept.\<close>

fun split_sep :: "char \<Rightarrow> string \<Rightarrow> string list" where
  "split_sep sep [] = [[]]"
| "split_sep sep (c # cs) =
     (if c = sep then [] # split_sep sep cs else cons_head c (split_sep sep cs))"

text \<open>\<^verbatim>\<open>s.split(sep, 1)\<close>: at most one cut, at the first separator.\<close>

definition split_once :: "char \<Rightarrow> string \<Rightarrow> string list" where
  "split_once sep s =
     (if sep \<in> set s
      then [takeWhile (\<lambda>c. c \<noteq> sep) s, tl (dropWhile (\<lambda>c. c \<noteq> sep) s)]
      else [s])"

text \<open>\<^verbatim>\<open>s.split()\<close>: pieces between runs of whitespace, no empty piece.\<close>

fun split_ws :: "string \<Rightarrow> string list" where
  "split_ws [] = []"
| "split_ws [c] = (if isspace c then [] else [[c]])"
| "split_ws (c # d # cs) =
     (if isspace c then split_ws (d # cs)
      else if isspace d then [c] # split_ws (d # cs)
      else cons_head c (split_ws (d # cs)))"

text \<open>\<^verbatim>\<open>s.splitlines()\<close>: a carriage return followed by a line feed is one boundary, and
  a final boundary opens no empty last line.\<close>

fun splitlines :: "string \<Rightarrow> string list" where
  "splitlines [] = []"
| "splitlines [c] = (if linebreak c then [[]] else [[c]])"
| "splitlines (c # d # cs) =
     (if c = CHR 0x0D \<and> d = CHR 0x0A then [] # splitlines cs
      else if linebreak c then [] # splitlines (d # cs)
      else cons_head c (splitlines (d # cs)))"

text \<open>\<^verbatim>\<open>sep.join(xs)\<close>\<close>

fun join :: "string \<Rightarrow> string list \<Rightarrow> string" where
  "join sep [] = []"
| "join sep [x] = x"
| "join sep (x # y # ys) = x @ sep @ join sep (y # ys)"

text \<open>\<^verbatim>\<open>str(n)\<close> for an integer.\<close>

fun digits :: "nat \<Rightarrow> string" where
  "digits n =
     (if n < 10 then [char_of (48 + n)] else digits (n div 10) @ [char_of (48 + n mod 10)])"

declare digits.simps [simp del]

definition str_int :: "int \<Rightarrow> string" where
  "str_int i = (if i < 0 then CHR ''-'' # digits (nat (- i)) else digits (nat i))"

text \<open>\<^verbatim>\<open>s.rfind(c)\<close>, \<^verbatim>\<open>os.path.basename\<close> and the root part of \<^verbatim>\<open>os.path.splitext\<close>
  (POSIX): the extension starts at the last dot, unless only dots precede it in the
  last path component.\<close>

definition rfind :: "char \<Rightarrow> string \<Rightarrow> int" where
  "rfind c s =
     (if c \<in> set s then int (length s) - 1 - int (length (takeWhile (\<lambda>x. x \<noteq> c) (rev s)))
      else - 1)"

definition basename :: "string \<Rightarrow> string" where
  "basename p = drop (nat (rfind (CHR ''/'') p + 1)) p"

definition splitext_root :: "string \<Rightarrow> string" where
  "splitext_root p =
     (let sepIndex = rfind (CHR ''/'') p; dotIndex = rfind (CHR ''.'') p
      in if dotIndex > sepIndex
            \<and> list_ex (\<lambda>c. c \<noteq> CHR ''.'')
                 (take (nat (dotIndex - (sepIndex + 1))) (drop (nat (sepIndex + 1)) p))
         then take (nat dotIndex) p else p)"

section \<open>Errors, log and configuration\<close>

text \<open>Every way a step of the program stops: \<^verbatim>\<open>sys.exit(n)\<close> and the exceptions that
  nothing in the program catches.\<close>

datatype abort =
    SystemExit int
  | IndexError
  | KeyError
  | AttributeError
  | OSError
  | JSONDecodeError

datatype level = INFO | WARNING | ERROR

type_synonym log_entry = "level \<times> string"

type_synonym cmd = "string list"

text \<open>The globals read from the command line.  \<open>target_ip\<close> is the host name that
  \<^verbatim>\<open>urlparse\<close> finds in the URL and \<open>seclist_file\<close> the path of the word list.\<close>

record config =
  url :: string
  ports :: string
  tools :: string
  target_ip :: string
  seclist_file :: string

definition allowed_tools :: "string list" where
  "allowed_tools = [''nmap'', ''whatweb'', ''wafwoof'', ''ffuf'', ''nikto'']"

text \<open>The dictionary \<^verbatim>\<open>commands\<close>, in its insertion order.\<close>

definition commands :: "config \<Rightarrow> (string \<times> cmd) list" where
  "commands cfg =
     [(''Nmap'', [''nmap'', ''-sV'', ''-p'', ports cfg, target_ip cfg]),
      (''Whatweb'', [''whatweb'', url cfg]),
      (''Wafwoof'', [''wafw00f'', url cfg]),
      (''Ffuf'', [''ffuf'', ''-u'', url cfg @ ''/FUZZ'', ''-w'', seclist_file cfg,
                  ''-of'', ''json'', ''-o'', ''./outputs/ffuf_result.json'']),
      (''Nikto'', [''nikto'', ''-h'', url cfg])]"

section \<open>Tool selection\<close>

text \<open>A Python dictionary keeps the position of a key's first insertion and the value
  of its last one.\<close>

fun dict_set :: "('k \<times> 'v) list \<Rightarrow> 'k \<Rightarrow> 'v \<Rightarrow> ('k \<times> 'v) list" where
  "dict_set [] k v = [(k, v)]"
| "dict_set ((k', v') # d) k v =
     (if k' = k then (k', v) # d else (k', v') # dict_set d k v)"

definition dict_get :: "('k \<times> 'v) list \<Rightarrow> 'k \<Rightarrow> abort + 'v" where
  "dict_get d k = (case map_of d k of None \<Rightarrow> Inl KeyError | Some v \<Rightarrow> Inr v)"

definition selected_tools :: "string \<Rightarrow> string list" where
  "selected_tools ts = map (\<lambda>tool. lower (strip tool)) (split_sep (CHR '','') ts)"

definition allowed_lower :: "string list" where
  "allowed_lower = map lower allowed_tools"

definition invalid_tools :: "string \<Rightarrow> string list" where
  "invalid_tools ts = filter (\<lambda>tool. tool \<notin> set allowed_lower) (selected_tools ts)"

definition key_map :: "config \<Rightarrow> (string \<times> string) list" where
  "key_map cfg = fold (\<lambda>key d. dict_set d (lower key) key) (map fst (commands cfg)) []"

text \<open>The dictionary comprehension of \<^verbatim>\<open>filterCommands\<close>, one selected name after the
  other.\<close>

fun build_filtered ::
  "config \<Rightarrow> string list \<Rightarrow> (string \<times> cmd) list \<Rightarrow> abort + (string \<times> cmd) list" where
  "build_filtered cfg [] d = Inr d"
| "build_filtered cfg (tool # rest) d =
     (case dict_get (key_map cfg) tool of
        Inl e \<Rightarrow> Inl e
      | Inr key \<Rightarrow>
          (case dict_get (commands cfg) key of
             Inl e \<Rightarrow> Inl e
           | Inr c \<Rightarrow> build_filtered cfg rest (dict_set d key c)))"

text \<open>\<^verbatim>\<open>filterCommands\<close>: the log lines it writes, and the dictionary it returns or the
  way it stops.\<close>

definition filterCommands :: "config \<Rightarrow> log_entry list \<times> (abort + (string \<times> cmd) list)" where
  "filterCommands cfg =
     (if tools cfg = ''all'' then ([], Inr (commands cfg))
      else if invalid_tools (tools cfg) \<noteq> []
      then ([(ERROR, ''Invalid tool(s) specified: '' @ join '', '' (invalid_tools (tools cfg)))],
            Inl (SystemExit 1))
      else ([], build_filtered cfg (selected_tools (tools cfg)) []))"

section \<open>The environment of one run\<close>

text \<open>What the program reads from outside while it runs.  \<open>spawn\<close> is
  \<^verbatim>\<open>subprocess.run\<close>: the child's exit code and its captured output, or the
  \<^verbatim>\<open>OSError\<close> raised when the program cannot be started.  \<open>ffuf_file\<close> is the state of
  \<^verbatim>\<open>./outputs/ffuf_result.json\<close> when it is read.  \<open>probe\<close> is the request of
  \<^verbatim>\<open>get_wildcard_length\<close>: the number of characters of the response body, or the text
  of the exception.\<close>

datatype proc = Exited int string | SpawnError

text \<open>One element of the \<^verbatim>\<open>results\<close> array that ffuf writes.  The fields hold what
  ffuf puts there: a path segment and four integers.\<close>

record finding =
  f_fuzz :: string
  f_status :: int
  f_length :: int
  f_words :: int
  f_lines :: int

text \<open>The file cannot be opened; it is not JSON; it is JSON but not an object; or it
  is an object, with or without the key \<^verbatim>\<open>results\<close>.\<close>

datatype ffuf_file =
    Unreadable
  | NotJSON
  | JSONOther
  | JSONObject "finding list option"

record env =
  spawn :: "cmd \<Rightarrow> proc"
  ffuf_file :: ffuf_file
  probe :: "string + nat"

section \<open>Exit codes, the results file and the wildcard probe\<close>

definition log_checking_codes :: "string \<Rightarrow> int \<Rightarrow> string \<Rightarrow> log_entry list \<times> string" where
  "log_checking_codes tool_name returncode raw =
     (let output = strip raw
      in if returncode \<noteq> 0
         then if tool_name = ''Nikto''
              then if contains ''Nikto v'' output
                      \<and> (contains ''+ Target'' output \<or> contains ''+ Server:'' output)
                   then ([(INFO, tool_name @ '' executed successfully.'')], output)
                   else ([(ERROR, ''Nikto failed: no valid output returned.'')],
                         ''Error: '' @ output)
              else ([(ERROR, tool_name @ '' failed with exit code '' @ str_int returncode)],
                    ''Error: '' @ output)
         else ([(INFO, tool_name @ '' executed successfully.'')], output))"

definition get_ffuf_results :: "env \<Rightarrow> abort + finding list" where
  "get_ffuf_results e =
     (case ffuf_file e of
        Unreadable \<Rightarrow> Inl OSError
      | NotJSON \<Rightarrow> Inl JSONDecodeError
      | JSONOther \<Rightarrow> Inl AttributeError
      | JSONObject None \<Rightarrow> Inr []
      | JSONObject (Some rs) \<Rightarrow> Inr rs)"

definition get_wildcard_length :: "env \<Rightarrow> log_entry list \<times> nat option" where
  "get_wildcard_length e =
     (case probe e of
        Inr n \<Rightarrow> ([], Some n)
      | Inl msg \<Rightarrow> ([(WARNING, ''[Ffuf] Wildcard detection failed: '' @ msg)], None))"

definition filter_by_length :: "finding list \<Rightarrow> nat \<Rightarrow> finding list" where
  "filter_by_length ffuf_results wildcard_length =
     filter (\<lambda>result. f_length result \<noteq> int wildcard_length) ffuf_results"

definition format_finding :: "finding \<Rightarrow> string" where
  "format_finding r =
     f_fuzz r @ '' [Status: '' @ str_int (f_status r) @ '', Size: '' @ str_int (f_length r)
       @ '', Words: '' @ str_int (f_words r) @ '', Lines: '' @ str_int (f_lines r)
       @ '', Words: '' @ str_int (f_words r) @ '']''"

section \<open>Cleaning the output of each tool\<close>

definition index_py :: "'a list \<Rightarrow> nat \<Rightarrow> abort + 'a" where
  "index_py xs i = (if i < length xs then Inr (xs ! i) else Inl IndexError)"

definition waf_marker :: "string \<Rightarrow> bool" where
  "waf_marker line \<longleftrightarrow> contains ''No WAF detected'' line \<or> contains ''is behind'' line"

definition clean_wafwoof :: "string \<Rightarrow> string" where
  "clean_wafwoof output =
     (case find waf_marker (splitlines output) of Some line \<Rightarrow> line | None \<Rightarrow> output)"

definition clean_whatweb :: "string \<Rightarrow> abort + string" where
  "clean_whatweb output = index_py (split_once (CHR '' '') output) 1"

definition nmap_banner :: "string \<Rightarrow> bool" where
  "nmap_banner line \<longleftrightarrow>
     startswith line ''Starting Nmap'' \<or>
     startswith line ''Nmap scan report for'' \<or>
     startswith line ''Host is up'' \<or>
     startswith line ''Service detection performed.'' \<or>
     startswith line ''Nmap done:''"

definition clean_nmap :: "string \<Rightarrow> string" where
  "clean_nmap output =
     strip (join [CHR 0x0A] (filter (\<lambda>line. \<not> nmap_banner line) (splitlines output)))"

definition clean_ffuf :: "env \<Rightarrow> string \<Rightarrow> log_entry list \<times> (abort + string)" where
  "clean_ffuf e output =
     (case get_ffuf_results e of
        Inl a \<Rightarrow> ([], Inl a)
      | Inr ffuf_results \<Rightarrow>
          (case get_wildcard_length e of
             (lg, None) \<Rightarrow> (lg, Inr output)
           | (lg, Some wildcard_length) \<Rightarrow>
               (lg, Inr (join [CHR 0x0A]
                          (map format_finding (filter_by_length ffuf_results wildcard_length))))))"

text \<open>The path of a Nikto line and the key under which it is remembered.\<close>

definition nikto_path :: "string \<Rightarrow> string option" where
  "nikto_path line = find (\<lambda>p. startswith p ''/'') (split_ws line)"

definition path_key :: "string \<Rightarrow> string" where
  "path_key path = splitext_root (basename path)"

text \<open>The loop over the lines of Nikto's output, with \<^verbatim>\<open>seen_paths\<close> and
  \<^verbatim>\<open>filtered_lines\<close> as they stand before each line.\<close>

fun nikto_loop :: "string list \<Rightarrow> string set \<Rightarrow> string list \<Rightarrow> string list" where
  "nikto_loop [] seen_paths filtered_lines = filtered_lines"
| "nikto_loop (line # rest) seen_paths filtered_lines =
     (if \<not> startswith line ''+'' \<or> startswith line ''+-''
      then nikto_loop rest seen_paths filtered_lines
      else (case nikto_path line of
              None \<Rightarrow> nikto_loop rest seen_paths (filtered_lines @ [strip line])
            | Some path \<Rightarrow>
                if path \<noteq> []
                then if path_key path \<in> seen_paths
                     then nikto_loop rest seen_paths filtered_lines
                     else nikto_loop rest (insert (path_key path) seen_paths)
                            (filtered_lines @ [strip line])
                else nikto_loop rest seen_paths (filtered_lines @ [strip line])))"

definition clean_nikto :: "string \<Rightarrow> string" where
  "clean_nikto output = join [CHR 0x0A] (nikto_loop (splitlines output) {} [])"

text \<open>The chain of branches on the tool's name.\<close>

definition clean :: "env \<Rightarrow> string \<Rightarrow> string \<Rightarrow> log_entry list \<times> (abort + string)" where
  "clean e tool_name output =
     (if tool_name = ''Wafwoof'' then ([], Inr (clean_wafwoof output))
      else if tool_name = ''Whatweb'' then ([], clean_whatweb output)
      else if tool_name = ''Nmap'' then ([], Inr (clean_nmap output))
      else if tool_name = ''Ffuf'' then clean_ffuf e output
      else if tool_name = ''Nikto'' then ([], Inr (clean_nikto output))
      else ([], Inr output))"

section \<open>The pipeline\<close>

record scan_row =
  Tool :: string
  Result :: string

text \<open>The state of a run: the rows of \<^verbatim>\<open>results\<close>, the log, and the commands handed to
  \<^verbatim>\<open>subprocess.run\<close> so far.\<close>

record state =
  results :: "scan_row list"
  log :: "log_entry list"
  dispatched :: "cmd list"

datatype outcome = Finished state | Aborted abort state

definition logging :: "log_entry list \<Rightarrow> state \<Rightarrow> state" where
  "logging lg st = st\<lparr>log := log st @ lg\<rparr>"

text \<open>One turn of the loop.  The spinner only writes to the terminal and is left out.\<close>

definition process_tool :: "env \<Rightarrow> string \<Rightarrow> cmd \<Rightarrow> state \<Rightarrow> outcome" where
  "process_tool e tool_name c st =
     (let st1 = (logging [(INFO, ''Running '' @ tool_name)] st)\<lparr>dispatched := dispatched st @ [c]\<rparr>
      in case spawn e c of
           SpawnError \<Rightarrow> Aborted OSError st1
         | Exited returncode stdout \<Rightarrow>
             (case log_checking_codes tool_name returncode stdout of
                (lg1, output) \<Rightarrow>
                  (case clean e tool_name output of
                     (lg2, Inl a) \<Rightarrow> Aborted a (logging (lg1 @ lg2) st1)
                   | (lg2, Inr output') \<Rightarrow>
                       Finished ((logging (lg1 @ lg2) st1)
                         \<lparr>results := results st1 @ [\<lparr>Tool = tool_name, Result = strip output'\<rparr>]\<rparr>))))"

fun run_tools :: "env \<Rightarrow> (string \<times> cmd) list \<Rightarrow> state \<Rightarrow> outcome" where
  "run_tools e [] st = Finished st"
| "run_tools e ((tool_name, c) # rest) st =
     (case process_tool e tool_name c st of
        Aborted a st' \<Rightarrow> Aborted a st'
      | Finished st' \<Rightarrow> run_tools e rest st')"

definition initial_state :: "config \<Rightarrow> state" where
  "initial_state cfg =
     \<lparr>results = [],
      log = [(INFO, ''Target URL: '' @ url cfg), (INFO, ''Ports to scan: '' @ ports cfg)],
      dispatched = []\<rparr>"

text \<open>The program from its first log line to the end of the loop.\<close>

definition whack :: "config \<Rightarrow> env \<Rightarrow> outcome" where
  "whack cfg e =
     (case filterCommands cfg of
        (lg, Inl a) \<Rightarrow> Aborted a (logging lg (initial_state cfg))
      | (lg, Inr selected) \<Rightarrow> run_tools e selected (logging lg (initial_state cfg)))"

section \<open>Notions used to state the properties\<close>

text \<open>The text recorded as \<^verbatim>\<open>Result\<close> for a tool that exited with \<open>returncode\<close> and
  printed \<open>raw\<close>, or the exception that the cleaning raises: \<^verbatim>\<open>log_checking_codes\<close>, the
  tool's branch, and the final \<^verbatim>\<open>strip\<close>.\<close>

definition normalized_text :: "env \<Rightarrow> string \<Rightarrow> int \<Rightarrow> string \<Rightarrow> abort + string" where
  "normalized_text e tool_name returncode raw =
     (case clean e tool_name (snd (log_checking_codes tool_name returncode raw)) of
        (lg, Inl a) \<Rightarrow> Inl a
      | (lg, Inr output) \<Rightarrow> Inr (strip output))"

text \<open>Where a run stopped and how.\<close>

fun final_state :: "outcome \<Rightarrow> state" where
  "final_state (Finished st) = st"
| "final_state (Aborted a st) = st"

fun raised :: "outcome \<Rightarrow> abort option" where
  "raised (Finished st) = None"
| "raised (Aborted a st) = Some a"

text \<open>The elements of a list in the order of their first occurrence, each once.\<close>

fun first_mentions :: "'a list \<Rightarrow> 'a list" where
  "first_mentions [] = []"
| "first_mentions (x # xs) = x # filter (\<lambda>y. y \<noteq> x) (first_mentions xs)"

text \<open>The identifiers of the registry, lower-cased: what a selected name is matched
  against without regard to case.\<close>

definition registry_names :: "config \<Rightarrow> string list" where
  "registry_names cfg = map lower (map fst (commands cfg))"



text \<open>The base name of a path: what follows its last slash.\<close>

definition last_component :: "string \<Rightarrow> string" where
  "last_component p = rev (takeWhile (\<lambda>c. c \<noteq> CHR ''/'') (rev p))"

text \<open>A base name without its extension.  The extension starts at the last dot,
  provided a character other than a dot stands before that dot.\<close>

definition drop_extension :: "string \<Rightarrow> string" where
  "drop_extension b =
     (let e = takeWhile (\<lambda>c. c \<noteq> CHR ''.'') (rev b);
          r = rev (drop (Suc (length e)) (rev b))
      in if CHR ''.'' \<in> set b \<and> (\<exists>c \<in> set r. c \<noteq> CHR ''.'') then r else b)"




section \<open>Concrete runs\<close>

text \<open>A configuration, and environments in which every tool prints the same text: nothing
  with exit code 0, one word with exit code 0, a message with exit code 1.\<close>

definition example_cfg :: "string \<Rightarrow> config" where
  "example_cfg ts =
     \<lparr>url = ''http://example.com'', ports = ''80,443'', tools = ts,
      target_ip = ''example.com'', seclist_file = ''utils/seclist_discovery.txt''\<rparr>"

definition example_env :: env where
  "example_env = \<lparr>spawn = (\<lambda>c. Exited 0 []), ffuf_file = JSONObject None, probe = Inl []\<rparr>"

definition single_token_env :: env where
  "single_token_env = example_env\<lparr>spawn := (\<lambda>c. Exited 0 ''up'')\<rparr>"

definition refused_env :: env where
  "refused_env = example_env\<lparr>spawn := (\<lambda>c. Exited 1 ''connection refused'')\<rparr>"

text \<open>The results file cannot be opened.\<close>

definition unreadable_env :: env where
  "unreadable_env = example_env\<lparr>ffuf_file := Unreadable\<rparr>"

text \<open>The results file holds two findings and the wildcard probe times out.\<close>

definition ffuf_console :: string where
  "ffuf_console = '' :: Progress: [2/2] :: Errors: 0 ::'' @ [CHR 0x0A]"

definition no_baseline_env :: env where
  "no_baseline_env =
     \<lparr>spawn = (\<lambda>c. Exited 0 ffuf_console),
      ffuf_file = JSONObject (Some
        [\<lparr>f_fuzz = ''admin'', f_status = 200, f_length = 1234, f_words = 10, f_lines = 3\<rparr>,
         \<lparr>f_fuzz = ''login'', f_status = 301, f_length = 987, f_words = 7, f_lines = 2\<rparr>]),
      probe = Inl ''Read timed out.''\<rparr>"



definition nmap_example :: string where
  "nmap_example =
     ''Starting Nmap 7.94'' @ [CHR 0x0A] @
     ''PORT   STATE SERVICE VERSION'' @ [CHR 0x0A] @
     ''80/tcp open  http    nginx'' @ [CHR 0x0A] @
     ''Nmap done: 1 IP address (1 host up)'' @ [CHR 0x0A]"

definition waf_example :: string where
  "waf_example =
     ''[*] Checking http://example.com'' @ [CHR 0x0A] @
     ''[+] The site example.com is behind CloudFront'' @ [CHR 0x0A] @
     ''[~] Number of requests: 2'' @ [CHR 0x0A]"

definition indented_banner :: string where
  "indented_banner = ''Starting Nmap 7.94'' @ [CHR 0x0A] @ ''  Host is up (0.01s latency).''"

section \<open>Text primitives: properties\<close>

subsection \<open>Stripping\<close>

lemma strip_Nil: "strip [] = []"
  by (simp add: strip_def)

lemma strip_id:
  assumes "s \<noteq> []" "\<not> isspace (hd s)" "\<not> isspace (last s)"
  shows "strip s = s"
proof -
  have a: "dropWhile isspace s = s" using assms(1,2) by (cases s) simp_all
  have "rev s \<noteq> []" "\<not> isspace (hd (rev s))" using assms(1,3) by (simp_all add: hd_rev)
  then have b: "dropWhile isspace (rev s) = rev s" by (cases "rev s") simp_all
  show ?thesis by (simp add: strip_def a b)
qed

lemma dropWhile_ends: "dropWhile P xs = [] \<or> \<not> P (hd (dropWhile P xs))"
  by (metis hd_dropWhile)

lemma dropWhile_rev_hd:
  assumes "t \<noteq> []" "\<not> P (hd t)"
  shows "rev (dropWhile P (rev t)) \<noteq> [] \<and> hd (rev (dropWhile P (rev t))) = hd t"
proof -
  obtain x xs where t: "t = x # xs" using assms(1) by (cases t) auto
  have nP: "\<not> P x" using assms(2) t by simp
  have "dropWhile P (rev xs @ [x]) = dropWhile P (rev xs) @ [x]"
    using nP by (simp add: dropWhile_append3)
  then show ?thesis by (simp add: t)
qed

lemma strip_ends: "strip s = [] \<or> (\<not> isspace (hd (strip s)) \<and> \<not> isspace (last (strip s)))"
proof -
  let ?t = "dropWhile isspace s"
  let ?u = "dropWhile isspace (rev ?t)"
  show ?thesis
  proof (cases "?t = []")
    case True
    have "strip s = []" unfolding strip_def True by simp
    then show ?thesis by simp
  next
    case False
    then have h: "\<not> isspace (hd ?t)" using dropWhile_ends [of isspace s] by blast
    from dropWhile_rev_hd [of ?t isspace] False h
    have ne: "rev ?u \<noteq> []" and hd: "hd (rev ?u) = hd ?t" by simp_all
    have "?u \<noteq> []" using ne by simp
    then have "\<not> isspace (hd ?u)" using dropWhile_ends [of isspace "rev ?t"] by blast
    then have "\<not> isspace (last (rev ?u))" using \<open>?u \<noteq> []\<close> by (simp add: last_rev)
    then show ?thesis using h hd by (simp add: strip_def)
  qed
qed

lemma strip_idem: "strip (strip s) = strip s"
proof (cases "strip s = []")
  case True
  then show ?thesis by (simp add: strip_Nil)
next
  case False
  then show ?thesis using strip_ends [of s] strip_id [of "strip s"] by blast
qed

lemma set_strip: "set (strip s) \<subseteq> set s"
proof -
  have "set (strip s) \<subseteq> set (dropWhile isspace s)"
    unfolding strip_def set_rev using set_dropWhileD by fastforce
  also have "\<dots> \<subseteq> set s" using set_dropWhileD by fastforce
  finally show ?thesis .
qed


subsection \<open>Prefixes and substrings\<close>

lemma startswith_iff: "startswith s p \<longleftrightarrow> (\<exists>b. s = p @ b)"
proof
  assume "startswith s p"
  then have "s = p @ drop (length p) s"
    unfolding startswith_def by (metis append_take_drop_id)
  then show "\<exists>b. s = p @ b" ..
next
  assume "\<exists>b. s = p @ b"
  then show "startswith s p" by (auto simp add: startswith_def)
qed

lemma contains_iff: "contains p s \<longleftrightarrow> (\<exists>a b. s = a @ p @ b)"
proof (induction s)
  case Nil
  show ?case by auto
next
  case (Cons c cs)
  show ?case
  proof
    assume "contains p (c # cs)"
    then consider "startswith (c # cs) p" | "contains p cs" by auto
    then show "\<exists>a b. c # cs = a @ p @ b"
    proof cases
      case 1
      then obtain b where "c # cs = p @ b" by (auto simp add: startswith_iff)
      then have "c # cs = [] @ p @ b" by simp
      then show ?thesis by blast
    next
      case 2
      then obtain a b where "cs = a @ p @ b" using Cons.IH by blast
      then have "c # cs = (c # a) @ p @ b" by simp
      then show ?thesis by blast
    qed
  next
    assume "\<exists>a b. c # cs = a @ p @ b"
    then obtain a b where ab: "c # cs = a @ p @ b" by blast
    show "contains p (c # cs)"
    proof (cases a)
      case Nil
      then have "startswith (c # cs) p" using ab by (auto simp add: startswith_iff)
      then show ?thesis by simp
    next
      case (Cons x a')
      then have "cs = a' @ p @ b" using ab by simp
      then have "contains p cs" using Cons.IH by blast
      then show ?thesis by simp
    qed
  qed
qed

lemma dropWhile_keeps:
  assumes "m \<noteq> []" "\<not> P (hd m)"
  shows "\<exists>a'. dropWhile P (a @ m @ b) = a' @ m @ b"
proof (induction a)
  case Nil
  have "dropWhile P (m @ b) = m @ b" using assms by (cases m) simp_all
  then show ?case by (metis append_Nil)
next
  case (Cons x a)
  then show ?case by (cases "P x") (auto intro: exI [of _ "x # a"])
qed

lemma contains_strip:
  assumes "contains m l" "m \<noteq> []" "\<not> isspace (hd m)" "\<not> isspace (last m)"
  shows "contains m (strip l)"
proof -
  from assms(1) obtain a b where l: "l = a @ m @ b" by (auto simp add: contains_iff)
  from dropWhile_keeps [of m isspace a b] assms(2,3) obtain a' where
    1: "dropWhile isspace l = a' @ m @ b" unfolding l by blast
  have rm: "rev m \<noteq> []" "\<not> isspace (hd (rev m))" using assms(2,4) by (simp_all add: hd_rev)
  from dropWhile_keeps [of "rev m" isspace "rev b" "rev a'"] rm obtain b' where
    2: "dropWhile isspace (rev (a' @ m @ b)) = b' @ rev m @ rev a'" by auto
  have "strip l = rev (b' @ rev m @ rev a')" unfolding strip_def 1 2 ..
  then have "strip l = a' @ m @ rev b'" by simp
  then show ?thesis by (auto simp add: contains_iff)
qed


subsection \<open>Lines\<close>

lemma set_cons_head: "l \<in> set (cons_head c ls) \<Longrightarrow> set l \<subseteq> insert c (\<Union> (set ` set ls))"
  by (cases ls) auto

lemma cons_head_not_Nil: "cons_head c ls \<noteq> []"
  by (cases ls) simp_all

lemma splitlines_Nil_iff: "splitlines s = [] \<longleftrightarrow> s = []"
  by (induction s rule: splitlines.induct) (simp_all add: cons_head_not_Nil)

lemma splitlines_no_break:
  "l \<in> set (splitlines s) \<Longrightarrow> c \<in> set l \<Longrightarrow> \<not> linebreak c"
proof (induction s arbitrary: l rule: splitlines.induct)
  case 1
  then show ?case by simp
next
  case (2 x)
  then show ?case by (auto split: if_splits)
next
  case (3 x d cs)
  show ?case
  proof (cases "x = CHR 0x0D \<and> d = CHR 0x0A")
    case True
    then show ?thesis using 3 by auto
  next
    case nocr: False
    show ?thesis
    proof (cases "linebreak x")
      case True
      then show ?thesis using 3 nocr by auto
    next
      case False
      then have "l \<in> set (cons_head x (splitlines (d # cs)))" using 3(4) nocr by simp
      then have "set l \<subseteq> insert x (\<Union> (set ` set (splitlines (d # cs))))"
        by (rule set_cons_head)
      then consider "c = x" | l' where "l' \<in> set (splitlines (d # cs))" "c \<in> set l'"
        using 3(5) by auto
      then show ?thesis
      proof cases
        case 1
        then show ?thesis using False by simp
      next
        case 2
        then show ?thesis using 3(3) [OF nocr False] by blast
      qed
    qed
  qed
qed

lemma splitlines_single:
  "s \<noteq> [] \<Longrightarrow> \<forall>c \<in> set s. \<not> linebreak c \<Longrightarrow> splitlines s = [s]"
proof (induction s rule: splitlines.induct)
  case 1
  then show ?case by simp
next
  case (2 x)
  then show ?case by simp
next
  case (3 x d cs)
  have x: "\<not> linebreak x" and rest: "\<forall>c \<in> set (d # cs). \<not> linebreak c" using 3(5) by simp_all
  have nocr: "\<not> (x = CHR 0x0D \<and> d = CHR 0x0A)" using x by (auto simp add: linebreak_def)
  have "splitlines (d # cs) = [d # cs]" using 3(3) [OF nocr x] rest by simp
  then show ?case using x nocr by simp
qed

lemma join_cons_head: "ls \<noteq> [] \<Longrightarrow> join sep (cons_head c ls) = c # join sep ls"
proof (cases ls)
  case Nil
  assume "ls \<noteq> []"
  then show ?thesis using Nil by simp
next
  case (Cons l ls')
  then show ?thesis by (cases ls') simp_all
qed

lemma join_Nil_Cons: "ls \<noteq> [] \<Longrightarrow> join sep ([] # ls) = sep @ join sep ls"
  by (cases ls) simp_all

lemma join_splitlines:
  assumes "\<forall>c \<in> set s. linebreak c \<longrightarrow> c = CHR 0x0A" and "s = [] \<or> last s \<noteq> CHR 0x0A"
  shows "join [CHR 0x0A] (splitlines s) = s"
  using assms
proof (induction s rule: splitlines.induct)
  case 1
  then show ?case by simp
next
  case (2 x)
  then have "\<not> linebreak x" by auto
  then show ?case by simp
next
  case (3 x d cs)
  have nocr: "\<not> (x = CHR 0x0D \<and> d = CHR 0x0A)"
    using 3(4) by (auto simp add: linebreak_def)
  have rest1: "\<forall>c \<in> set (d # cs). linebreak c \<longrightarrow> c = CHR 0x0A" using 3(4) by simp
  have rest2: "d # cs = [] \<or> last (d # cs) \<noteq> CHR 0x0A" using 3(5) by simp
  have ne: "splitlines (d # cs) \<noteq> []" by (simp add: splitlines_Nil_iff)
  show ?case
  proof (cases "linebreak x")
    case True
    then have "x = CHR 0x0A" using 3(4) by simp
    moreover have "join [CHR 0x0A] (splitlines (d # cs)) = d # cs"
      using 3(2) [OF nocr True rest1 rest2] .
    ultimately show ?thesis using True nocr ne by (simp add: join_Nil_Cons)
  next
    case False
    have "join [CHR 0x0A] (splitlines (d # cs)) = d # cs"
      using 3(3) [OF nocr False rest1 rest2] .
    moreover have "x \<noteq> CHR 0x0D" using False by (auto simp add: linebreak_def)
    ultimately show ?thesis using False ne by (simp add: join_cons_head)
  qed
qed

lemma set_join: "set (join sep ls) \<subseteq> set sep \<union> \<Union> (set ` set ls)"
  by (induction sep ls rule: join.induct) auto


section \<open>Tool selection: properties\<close>

lemma lower_keys:
  "lower ''Nmap'' = ''nmap''" "lower ''Whatweb'' = ''whatweb''" "lower ''Wafwoof'' = ''wafwoof''"
  "lower ''Ffuf'' = ''ffuf''" "lower ''Nikto'' = ''nikto''"
  by code_simp+

lemma allowed_lower_eval:
  "allowed_lower = [''nmap'', ''whatweb'', ''wafwoof'', ''ffuf'', ''nikto'']"
  unfolding allowed_lower_def allowed_tools_def by code_simp

lemma registry_names_allowed: "registry_names cfg = allowed_lower"
  by (simp add: registry_names_def commands_def allowed_lower_eval lower_keys)

lemma key_map_eval:
  "key_map cfg = [(''nmap'', ''Nmap''), (''whatweb'', ''Whatweb''), (''wafwoof'', ''Wafwoof''),
                  (''ffuf'', ''Ffuf''), (''nikto'', ''Nikto'')]"
  by (simp add: key_map_def commands_def lower_keys)

lemma key_lookup:
  assumes "t \<in> set allowed_lower"
  shows "\<exists>key c. dict_get (key_map cfg) t = Inr key \<and> dict_get (commands cfg) key = Inr c
           \<and> lower key = t \<and> (key, c) \<in> set (commands cfg)"
  using assms
  by (auto simp add: allowed_lower_eval key_map_eval dict_get_def commands_def lower_keys)

lemma lower_inj_registry:
  assumes "k \<in> fst ` set (commands cfg)" "k' \<in> fst ` set (commands cfg)" "lower k = lower k'"
  shows "k = k'"
  using assms by (auto simp add: commands_def lower_keys)

lemma dict_set_keys:
  "map fst (dict_set d k v) = (if k \<in> fst ` set d then map fst d else map fst d @ [k])"
proof (induction d)
  case Nil
  show ?case by simp
next
  case (Cons p d)
  obtain k' v' where p: "p = (k', v')" by (cases p)
  show ?case
  proof (cases "k' = k")
    case True
    then show ?thesis by (simp add: p)
  next
    case False
    then show ?thesis using Cons.IH by (simp add: p)
  qed
qed

lemma dict_set_subset: "set (dict_set d k v) \<subseteq> insert (k, v) (set d)"
  by (induction d) (auto split: if_splits)

text \<open>The comprehension never meets a missing key on allowed names; it keeps entries of
  the registry, and its keys stand in the order in which the names were first given.\<close>

lemma build_filtered_ok:
  assumes "set ts \<subseteq> set allowed_lower" and "set d \<subseteq> set (commands cfg)"
  shows "\<exists>d'. build_filtered cfg ts d = Inr d' \<and> set d' \<subseteq> set (commands cfg)
           \<and> map (lower \<circ> fst) d'
               = map (lower \<circ> fst) d
                 @ filter (\<lambda>t. t \<notin> set (map (lower \<circ> fst) d)) (first_mentions ts)"
  using assms
proof (induction ts arbitrary: d)
  case Nil
  then show ?case by simp
next
  case (Cons t ts)
  from Cons.prems(1) have t: "t \<in> set allowed_lower" and ts: "set ts \<subseteq> set allowed_lower"
    by simp_all
  from key_lookup [OF t, of cfg] obtain key c where
    k1: "dict_get (key_map cfg) t = Inr key" and k2: "dict_get (commands cfg) key = Inr c"
    and k3: "lower key = t" and k4: "(key, c) \<in> set (commands cfg)"
    by blast
  let ?d1 = "dict_set d key c"
  let ?L = "map (lower \<circ> fst)"
  have sub1: "set ?d1 \<subseteq> set (commands cfg)"
    using dict_set_subset [of d key c] Cons.prems(2) k4 by auto
  from Cons.IH [OF ts sub1] obtain d' where
    r: "build_filtered cfg ts ?d1 = Inr d'" and s: "set d' \<subseteq> set (commands cfg)"
    and m: "?L d' = ?L ?d1 @ filter (\<lambda>t. t \<notin> set (?L ?d1)) (first_mentions ts)"
    by blast
  have mem: "key \<in> fst ` set d \<longleftrightarrow> t \<in> set (?L d)"
  proof
    assume "key \<in> fst ` set d"
    then show "t \<in> set (?L d)" using k3 by force
  next
    assume "t \<in> set (?L d)"
    then obtain p where p: "p \<in> set d" "lower (fst p) = t" by auto
    have "fst p \<in> fst ` set (commands cfg)" using p(1) Cons.prems(2) by auto
    moreover have "key \<in> fst ` set (commands cfg)" using k4 by force
    ultimately have "fst p = key" using lower_inj_registry p(2) k3 by metis
    then show "key \<in> fst ` set d" using p(1) by auto
  qed
  have keys1: "?L ?d1 = (if t \<in> set (?L d) then ?L d else ?L d @ [t])"
  proof -
    have "?L ?d1 = map lower (map fst ?d1)" by simp
    also have "\<dots> = (if key \<in> fst ` set d then map lower (map fst d)
                      else map lower (map fst d) @ [t])"
      by (simp add: dict_set_keys k3)
    finally show ?thesis using mem by simp
  qed
  have "build_filtered cfg (t # ts) d = Inr d'" using k1 k2 r by simp
  moreover have "?L d' = ?L d @ filter (\<lambda>t. t \<notin> set (?L d)) (first_mentions (t # ts))"
  proof (cases "t \<in> set (?L d)")
    case True
    have "filter (\<lambda>x. x \<notin> set (?L d)) (filter (\<lambda>y. y \<noteq> t) (first_mentions ts))
            = filter (\<lambda>x. x \<notin> set (?L d)) (first_mentions ts)"
      using True by (auto intro: filter_cong)
    then show ?thesis using m keys1 True by simp
  next
    case False
    have "filter (\<lambda>x. x \<notin> set (?L d)) (filter (\<lambda>y. y \<noteq> t) (first_mentions ts))
            = filter (\<lambda>x. x \<notin> set (?L d @ [t])) (first_mentions ts)"
      by (auto intro: filter_cong)
    then show ?thesis using m keys1 False by simp
  qed
  ultimately show ?case using s by blast
qed

lemma invalid_tools_empty_iff:
  "invalid_tools ts = [] \<longleftrightarrow> set (selected_tools ts) \<subseteq> set allowed_lower"
  by (auto simp add: invalid_tools_def filter_empty_conv)

lemma selected_tools_set:
  "set (selected_tools ts) = (\<lambda>name. lower (strip name)) ` set (split_sep (CHR '','') ts)"
  by (simp add: selected_tools_def)

text \<open>
  Claim C6.  For a valid selection (the word \<open>all\<close>, or names that all match a registry
  identifier without regard to case) \<^verbatim>\<open>filterCommands\<close> returns entries of the registry
  only.  For \<open>all\<close> it returns the whole registry in its declared order; otherwise the
  returned identifiers are, lower-cased, the caller's names in the order in which the
  caller first gave them.
\<close>

theorem filterCommands_subset_order:
  assumes "tools cfg = ''all'' \<or>
           (\<forall>name \<in> set (split_sep (CHR '','') (tools cfg)).
               lower (strip name) \<in> set (registry_names cfg))"
  shows "\<exists>sel. filterCommands cfg = ([], Inr sel) \<and> set sel \<subseteq> set (commands cfg) \<and>
           (if tools cfg = ''all'' then sel = commands cfg
            else map (lower \<circ> fst) sel
                   = first_mentions
                       (map (\<lambda>name. lower (strip name)) (split_sep (CHR '','') (tools cfg))))"
proof (cases "tools cfg = ''all''")
  case True
  then show ?thesis by (simp add: filterCommands_def)
next
  case False
  with assms have sub: "set (selected_tools (tools cfg)) \<subseteq> set allowed_lower"
    by (auto simp add: selected_tools_set registry_names_allowed)
  then have inv: "invalid_tools (tools cfg) = []" by (simp add: invalid_tools_empty_iff)
  from build_filtered_ok [OF sub, of "[]" cfg] obtain d' where
    "build_filtered cfg (selected_tools (tools cfg)) [] = Inr d'"
    "set d' \<subseteq> set (commands cfg)"
    "map (lower \<circ> fst) d' = first_mentions (selected_tools (tools cfg))"
    by auto
  then show ?thesis using False inv by (simp add: filterCommands_def selected_tools_def)
qed

theorem filterCommands_subset_order_witness:
  "\<exists>sel. filterCommands (example_cfg ''nmap,NIKTO'') = ([], Inr sel)
     \<and> set sel \<subseteq> set (commands (example_cfg ''nmap,NIKTO''))
     \<and> map (lower \<circ> fst) sel = [''nmap'', ''nikto'']"
proof -
  let ?cfg = "example_cfg ''nmap,NIKTO''"
  have t: "tools ?cfg = ''nmap,NIKTO''" by (simp add: example_cfg_def)
  have n: "''nmap,NIKTO'' \<noteq> ''all''" by simp
  have s: "first_mentions (map (\<lambda>name. lower (strip name)) (split_sep (CHR '','') ''nmap,NIKTO''))
             = [''nmap'', ''nikto'']"
    by code_simp
  have h: "\<forall>name \<in> set (split_sep (CHR '','') ''nmap,NIKTO'').
               lower (strip name) \<in> set (registry_names ?cfg)"
    unfolding registry_names_allowed by code_simp
  have "\<exists>sel. filterCommands ?cfg = ([], Inr sel) \<and> set sel \<subseteq> set (commands ?cfg) \<and>
           (if ''nmap,NIKTO'' = ''all'' then sel = commands ?cfg
            else map (lower \<circ> fst) sel = [''nmap'', ''nikto''])"
    using filterCommands_subset_order [of ?cfg] h unfolding t s by blast
  then show ?thesis unfolding if_not_P [OF n] .
qed

text \<open>
  Claim C5.  When the selection is not the word \<open>all\<close> and one of its comma-separated
  names matches no registry identifier without regard to case, the run stops with
  \<^verbatim>\<open>sys.exit(1)\<close>; the error line names every offending name (stripped and
  lower-cased), joined by commas; no command has been handed to \<^verbatim>\<open>subprocess.run\<close> and
  no row has been recorded.
\<close>

theorem unknown_tool_exits:
  assumes "tools cfg \<noteq> ''all''"
    and "\<exists>name \<in> set (split_sep (CHR '','') (tools cfg)).
            lower (strip name) \<notin> set (registry_names cfg)"
  shows "\<exists>st. whack cfg e = Aborted (SystemExit 1) st \<and> dispatched st = [] \<and> results st = []
           \<and> log st = log (initial_state cfg) @
               [(ERROR, ''Invalid tool(s) specified: '' @
                   join '', ''
                     (filter (\<lambda>t. t \<notin> set (registry_names cfg))
                        (map (\<lambda>name. lower (strip name))
                           (split_sep (CHR '','') (tools cfg)))))]"
proof -
  from assms(2) have "invalid_tools (tools cfg) \<noteq> []"
    by (auto simp add: invalid_tools_empty_iff selected_tools_set registry_names_allowed)
  then show ?thesis using assms(1)
    by (simp add: whack_def filterCommands_def logging_def initial_state_def
        invalid_tools_def selected_tools_def registry_names_allowed)
qed

theorem unknown_tool_exits_witness:
  "\<exists>st. whack (example_cfg ''nmap,foo, Bar'') example_env = Aborted (SystemExit 1) st
      \<and> dispatched st = [] \<and> results st = []
      \<and> last (log st) = (ERROR, ''Invalid tool(s) specified: foo, bar'')"
proof -
  let ?cfg = "example_cfg ''nmap,foo, Bar''"
  have t: "tools ?cfg = ''nmap,foo, Bar''" by (simp add: example_cfg_def)
  have h1: "tools ?cfg \<noteq> ''all''" by (simp add: t)
  have h2: "\<exists>name \<in> set (split_sep (CHR '','') (tools ?cfg)).
               lower (strip name) \<notin> set (registry_names ?cfg)"
    unfolding registry_names_allowed t by code_simp
  have f: "join '', ''
             (filter (\<lambda>t. t \<notin> set (registry_names ?cfg))
                (map (\<lambda>name. lower (strip name)) (split_sep (CHR '','') (tools ?cfg))))
             = ''foo, bar''"
    unfolding registry_names_allowed t by code_simp
  from unknown_tool_exits [OF h1 h2, of example_env] obtain st where
    "whack ?cfg example_env = Aborted (SystemExit 1) st" "dispatched st = []" "results st = []"
    "log st = log (initial_state ?cfg) @ [(ERROR, ''Invalid tool(s) specified: '' @ ''foo, bar'')]"
    unfolding f by blast
  then show ?thesis by simp
qed

text \<open>
  Claim C9.  Only the selection string \<open>all\<close> itself is the sentinel.  In any other
  selection a name that reads \<open>all\<close> once stripped and lower-cased (as in \<open>ALL\<close>, \<open>All\<close>
  or \<open>all,nmap\<close>) is taken as a tool name: it matches no registry identifier, it is
  among the invalid names, and the run stops with exit code 1 before any command is
  dispatched.
\<close>

theorem all_sentinel_exact:
  assumes "tools cfg \<noteq> ''all''" and "''all'' \<in> set (selected_tools (tools cfg))"
  shows "''all'' \<notin> set (registry_names cfg) \<and> ''all'' \<in> set (invalid_tools (tools cfg)) \<and>
         (\<exists>st. whack cfg e = Aborted (SystemExit 1) st \<and> dispatched st = [] \<and> results st = [])"
proof -
  have a: "''all'' \<notin> set allowed_lower" by (simp add: allowed_lower_eval)
  then have i: "''all'' \<in> set (invalid_tools (tools cfg))"
    using assms(2) by (simp add: invalid_tools_def)
  then have "invalid_tools (tools cfg) \<noteq> []" by auto
  then have "\<exists>st. whack cfg e = Aborted (SystemExit 1) st \<and> dispatched st = [] \<and> results st = []"
    using assms(1)
    by (simp add: whack_def filterCommands_def logging_def initial_state_def)
  then show ?thesis using a i by (simp add: registry_names_allowed)
qed

theorem all_sentinel_exact_witness:
  "(\<exists>st. whack (example_cfg ''ALL'') example_env = Aborted (SystemExit 1) st \<and> dispatched st = [])
   \<and> (\<exists>st. whack (example_cfg ''All'') example_env = Aborted (SystemExit 1) st \<and> dispatched st = [])
   \<and> (\<exists>st. whack (example_cfg ''all,nmap'') example_env = Aborted (SystemExit 1) st
           \<and> dispatched st = [])"
proof -
  have t: "\<And>ts. tools (example_cfg ts) = ts" by (simp add: example_cfg_def)
  have s1: "''all'' \<in> set (selected_tools ''ALL'')" by code_simp
  have s2: "''all'' \<in> set (selected_tools ''All'')" by code_simp
  have s3: "''all'' \<in> set (selected_tools ''all,nmap'')" by code_simp
  have "\<exists>st. whack (example_cfg ''ALL'') example_env = Aborted (SystemExit 1) st \<and> dispatched st = []"
    using all_sentinel_exact [of "example_cfg ''ALL''" example_env] by (simp add: t s1) blast
  moreover
  have "\<exists>st. whack (example_cfg ''All'') example_env = Aborted (SystemExit 1) st \<and> dispatched st = []"
    using all_sentinel_exact [of "example_cfg ''All''" example_env] by (simp add: t s2) blast
  moreover
  have "\<exists>st. whack (example_cfg ''all,nmap'') example_env = Aborted (SystemExit 1) st
          \<and> dispatched st = []"
    using all_sentinel_exact [of "example_cfg ''all,nmap''" example_env] by (simp add: t s3) blast
  ultimately show ?thesis by blast
qed


section \<open>One turn of the loop\<close>

lemma log_checking_codes_zero: "snd (log_checking_codes tool_name 0 raw) = strip raw"
  by (simp add: log_checking_codes_def)

lemma log_checking_codes_failed:
  "rc \<noteq> 0 \<Longrightarrow> t \<noteq> ''Nikto'' \<Longrightarrow>
     log_checking_codes t rc out
       = ([(ERROR, t @ '' failed with exit code '' @ str_int rc)], ''Error: '' @ strip out)"
  by (simp add: log_checking_codes_def)

lemma process_tool_finished:
  assumes "spawn e c = Exited rc out" and "normalized_text e t rc out = Inr r"
  shows "\<exists>st'. process_tool e t c st = Finished st'
           \<and> results st' = results st @ [\<lparr>Tool = t, Result = r\<rparr>]
           \<and> dispatched st' = dispatched st @ [c]
           \<and> log st' = log st @ [(INFO, ''Running '' @ t)] @ fst (log_checking_codes t rc out)
                 @ fst (clean e t (snd (log_checking_codes t rc out)))"
  using assms
  by (auto simp add: process_tool_def normalized_text_def logging_def
      split: prod.splits sum.splits)

lemma process_tool_aborted:
  assumes "spawn e c = Exited rc out" and "normalized_text e t rc out = Inl a"
  shows "\<exists>st'. process_tool e t c st = Aborted a st' \<and> results st' = results st
           \<and> dispatched st' = dispatched st @ [c]"
  using assms
  by (auto simp add: process_tool_def normalized_text_def logging_def
      split: prod.splits sum.splits)

lemma process_tool_rows:
  "process_tool e t c st = Finished st' \<Longrightarrow>
     map Tool (results st') = map Tool (results st) @ [t]"
  by (auto simp add: process_tool_def logging_def Let_def
      split: proc.splits prod.splits sum.splits)


text \<open>A run that reaches the end of the loop has recorded one row for each selected
  tool, in the order of the selection.\<close>

lemma run_tools_rows:
  "run_tools e sel st = Finished st' \<Longrightarrow>
     map Tool (results st') = map Tool (results st) @ map fst sel"
proof (induction sel arbitrary: st)
  case Nil
  then show ?case by simp
next
  case (Cons p sel)
  obtain t c where p: "p = (t, c)" by (cases p)
  from Cons.prems obtain st1 where
    1: "process_tool e t c st = Finished st1" and 2: "run_tools e sel st1 = Finished st'"
    by (auto simp add: p split: outcome.splits)
  show ?case using Cons.IH [OF 2] process_tool_rows [OF 1] by (simp add: p)
qed


lemma whack_rows:
  assumes "whack cfg e = Finished st"
  shows "\<exists>sel. snd (filterCommands cfg) = Inr sel \<and> map Tool (results st) = map fst sel"
proof (cases "filterCommands cfg")
  case (Pair lg r)
  show ?thesis
  proof (cases r)
    case (Inl a)
    then show ?thesis using assms Pair by (simp add: whack_def)
  next
    case (Inr sel)
    then have "run_tools e sel (logging lg (initial_state cfg)) = Finished st"
      using assms Pair by (simp add: whack_def)
    from run_tools_rows [OF this] show ?thesis
      using Pair Inr by (simp add: logging_def initial_state_def)
  qed
qed

lemma example_tools: "tools (example_cfg ts) = ts"
  by (simp add: example_cfg_def)

section \<open>Nikto: findings and their base names\<close>

lemma takeWhile_neq_all: "x \<notin> set xs \<Longrightarrow> takeWhile (\<lambda>c. c \<noteq> x) xs = xs"
  by (induction xs) auto

lemma takeWhile_neq_stop: "x \<notin> set a \<Longrightarrow> takeWhile (\<lambda>c. c \<noteq> x) (a @ x # b) = a"
  by (induction a) auto


text \<open>What the two notions give: the part after the last slash; the part before the last
  dot, unless the name has no dot or only dots before it.\<close>

lemma last_component_slash:
  "CHR ''/'' \<notin> set b \<Longrightarrow> last_component (d @ CHR ''/'' # b) = b"
  by (simp add: last_component_def takeWhile_neq_stop)

lemma last_component_plain: "CHR ''/'' \<notin> set b \<Longrightarrow> last_component b = b"
  by (simp add: last_component_def takeWhile_neq_all)

lemma drop_extension_dot:
  assumes "CHR ''.'' \<notin> set ext" and "\<exists>c \<in> set r. c \<noteq> CHR ''.''"
  shows "drop_extension (r @ CHR ''.'' # ext) = r"
proof -
  have t: "takeWhile (\<lambda>c. c \<noteq> CHR ''.'') (rev ext @ CHR ''.'' # rev r) = rev ext"
    using assms(1) by (simp add: takeWhile_neq_stop)
  show ?thesis using assms(2) by (simp add: drop_extension_def t)
qed

lemma drop_extension_plain: "CHR ''.'' \<notin> set b \<Longrightarrow> drop_extension b = b"
  by (simp add: drop_extension_def)

lemma drop_extension_dots:
  assumes "CHR ''.'' \<notin> set ext" and "\<forall>c \<in> set r. c = CHR ''.''"
  shows "drop_extension (r @ CHR ''.'' # ext) = r @ CHR ''.'' # ext"
proof -
  have t: "takeWhile (\<lambda>c. c \<noteq> CHR ''.'') (rev ext @ CHR ''.'' # rev r) = rev ext"
    using assms(1) by (simp add: takeWhile_neq_stop)
  show ?thesis using assms(2) by (simp add: drop_extension_def t)
qed






















section \<open>Exit codes and exceptions in the loop\<close>

lemma clean_whatweb_error: "clean_whatweb (''Error: '' @ x) = Inr x"
  by (simp add: clean_whatweb_def split_once_def index_py_def)

lemma clean_whatweb_no_space: "CHR '' '' \<notin> set s \<Longrightarrow> clean_whatweb s = Inl IndexError"
  by (simp add: clean_whatweb_def split_once_def index_py_def)


text \<open>
  Claim C8.  The claim wants a tool that exits with a nonzero code to be recorded with an
  error payload.  \<^verbatim>\<open>log_checking_codes\<close> returns that payload, \<open>Error: \<close> followed by the
  stripped output, and logs the failure, but the tool's cleaning branch then runs on the
  payload.  For WhatWeb it removes the first token, which is the mark itself: the row
  holds the stripped output alone, as if the run had succeeded.  The loop goes on.
\<close>

theorem whatweb_failure_unmarked:
  assumes "spawn e c = Exited rc out" and "rc \<noteq> 0"
  shows "\<exists>st'. process_tool e ''Whatweb'' c st = Finished st'
           \<and> results st' = results st @ [\<lparr>Tool = ''Whatweb'', Result = strip out\<rparr>]
           \<and> (ERROR, ''Whatweb failed with exit code '' @ str_int rc) \<in> set (log st')"
proof -
  have l: "log_checking_codes ''Whatweb'' rc out
             = ([(ERROR, ''Whatweb failed with exit code '' @ str_int rc)], ''Error: '' @ strip out)"
    using assms(2) by (simp add: log_checking_codes_failed)
  have "normalized_text e ''Whatweb'' rc out = Inr (strip out)"
    using clean_whatweb_error [of "strip out"]
    by (simp add: normalized_text_def clean_def l strip_idem)
  from process_tool_finished [OF assms(1) this, of st] obtain st' where
    "process_tool e ''Whatweb'' c st = Finished st'"
    "results st' = results st @ [\<lparr>Tool = ''Whatweb'', Result = strip out\<rparr>]"
    "log st' = log st @ [(INFO, ''Running '' @ ''Whatweb'')]
        @ fst (log_checking_codes ''Whatweb'' rc out)
        @ fst (clean e ''Whatweb'' (snd (log_checking_codes ''Whatweb'' rc out)))"
    by blast
  then show ?thesis by (simp add: l)
qed

theorem whatweb_failure_unmarked_witness:
  "\<exists>st'. process_tool refused_env ''Whatweb'' [''whatweb'', ''http://example.com'']
            (initial_state (example_cfg ''whatweb'')) = Finished st'
        \<and> results st' = [\<lparr>Tool = ''Whatweb'', Result = ''connection refused''\<rparr>]"
proof -
  have 1: "spawn refused_env [''whatweb'', ''http://example.com''] = Exited 1 ''connection refused''"
    by (simp add: refused_env_def)
  have 2: "(1::int) \<noteq> 0" by simp
  have 3: "strip ''connection refused'' = ''connection refused''" by code_simp
  from whatweb_failure_unmarked [OF 1 2, of "initial_state (example_cfg ''whatweb'')"]
  show ?thesis by (auto simp add: 3 initial_state_def)
qed

text \<open>
  Claim C2.  The claim wants cleaning never to raise.  The WhatWeb branch takes element 1
  of \<^verbatim>\<open>output.split(" ", 1)\<close>: when WhatWeb exits with code 0 and its stripped output has
  no space (one token, or nothing), the list has one element, \<^verbatim>\<open>IndexError\<close> is raised
  and nothing catches it.  No row is recorded for WhatWeb and the run stops there.
\<close>

theorem whatweb_single_token_raises:
  assumes "spawn e c = Exited 0 out" and "CHR '' '' \<notin> set (strip out)"
  shows "\<exists>st'. run_tools e ((''Whatweb'', c) # rest) st = Aborted IndexError st'
           \<and> results st' = results st"
proof -
  have "normalized_text e ''Whatweb'' 0 out = Inl IndexError"
    using assms(2)
    by (simp add: normalized_text_def clean_def log_checking_codes_zero clean_whatweb_no_space)
  from process_tool_aborted [OF assms(1) this, of st] show ?thesis by auto
qed

theorem whatweb_single_token_raises_witness:
  "\<exists>st. whack (example_cfg ''whatweb'') single_token_env = Aborted IndexError st
     \<and> results st = []"
proof -
  let ?cfg = "example_cfg ''whatweb''"
  let ?c1 = "[''whatweb'', ''http://example.com'']"
  have f: "filterCommands ?cfg = ([], Inr [(''Whatweb'', ?c1)])"
    by code_simp
  have 1: "spawn single_token_env ?c1 = Exited 0 ''up''"
    by (simp add: single_token_env_def)
  have 2: "CHR '' '' \<notin> set (strip ''up'')" by code_simp
  from whatweb_single_token_raises [OF 1 2, of "[]" "initial_state ?cfg"]
  show ?thesis by (auto simp add: whack_def f logging_def initial_state_def)
qed

text \<open>
  Claim C1.  The claim wants an absent or malformed results file to count as no finding.
  \<^verbatim>\<open>get_ffuf_results\<close> opens and parses the file with no handler: the exception leaves the
  loop.  No row is recorded for ffuf, and the tools selected after it are never run.
\<close>

theorem unreadable_results_file_aborts:
  assumes "spawn e c = Exited rc out"
    and "ffuf_file e = Unreadable \<or> ffuf_file e = NotJSON"
  shows "\<exists>a st'. run_tools e ((''Ffuf'', c) # rest) st = Aborted a st'
           \<and> (a = OSError \<or> a = JSONDecodeError)
           \<and> results st' = results st \<and> dispatched st' = dispatched st @ [c]"
proof -
  from assms(2) obtain a where a: "a = OSError \<or> a = JSONDecodeError"
    and g: "get_ffuf_results e = Inl a"
    by (auto simp add: get_ffuf_results_def)
  have "normalized_text e ''Ffuf'' rc out = Inl a"
    using g by (simp add: normalized_text_def clean_def clean_ffuf_def)
  from process_tool_aborted [OF assms(1) this, of st] obtain st' where
    "process_tool e ''Ffuf'' c st = Aborted a st'" "results st' = results st"
    "dispatched st' = dispatched st @ [c]" by blast
  then show ?thesis using a by auto
qed

theorem unreadable_results_file_aborts_witness:
  "\<exists>a st. whack (example_cfg ''ffuf,nikto'') unreadable_env = Aborted a st
       \<and> results st = [] \<and> length (dispatched st) = 1"
proof -
  let ?cfg = "example_cfg ''ffuf,nikto''"
  let ?c1 = "[''ffuf'', ''-u'', ''http://example.com/FUZZ'', ''-w'',
              ''utils/seclist_discovery.txt'', ''-of'', ''json'', ''-o'',
              ''./outputs/ffuf_result.json'']"
  let ?c2 = "[''nikto'', ''-h'', ''http://example.com'']"
  have f: "filterCommands ?cfg = ([], Inr [(''Ffuf'', ?c1), (''Nikto'', ?c2)])"
    by code_simp
  have 1: "spawn unreadable_env ?c1 = Exited 0 []"
    by (simp add: unreadable_env_def example_env_def)
  have 2: "ffuf_file unreadable_env = Unreadable \<or> ffuf_file unreadable_env = NotJSON"
    by (simp add: unreadable_env_def)
  from unreadable_results_file_aborts [OF 1 2, of "[(''Nikto'', ?c2)]" "initial_state ?cfg"]
  show ?thesis by (auto simp add: whack_def f logging_def initial_state_def)
qed

text \<open>
  Claim C3.  The claim wants one row for every selected tool whatever the tools return.
  With Nmap, WhatWeb and Nikto selected and tools that print one word and exit with
  code 0, the run stops with \<^verbatim>\<open>IndexError\<close> in WhatWeb's turn: the only row is Nmap's, and
  Nikto has not been run.  (\<open>whack_rows\<close> above: the rows are those of the selection
  whenever the loop reaches its end.)
\<close>

theorem rows_lost_when_a_step_raises:
  "raised (whack (example_cfg ''nmap,whatweb,nikto'') single_token_env) = Some IndexError
   \<and> map Tool (results (final_state (whack (example_cfg ''nmap,whatweb,nikto'') single_token_env)))
       = [''Nmap'']
   \<and> map hd (dispatched (final_state (whack (example_cfg ''nmap,whatweb,nikto'') single_token_env)))
       = [''nmap'', ''whatweb'']"
  by code_simp

text \<open>
  Claim C10.  When the results file has been read and the wildcard probe fails, the row
  of ffuf holds the console output of the tool as \<^verbatim>\<open>log_checking_codes\<close> returned it
  (stripped, and behind \<open>Error: \<close> when the exit code is not 0), whatever findings the
  file holds: they are neither filtered nor formatted.
\<close>

theorem ffuf_no_baseline_keeps_console_output:
  assumes "spawn e c = Exited rc out" and "get_ffuf_results e = Inr fs" and "probe e = Inl msg"
  shows "\<exists>st'. process_tool e ''Ffuf'' c st = Finished st'
           \<and> results st' = results st @
                [\<lparr>Tool = ''Ffuf'',
                  Result = (if rc = 0 then strip out else strip (''Error: '' @ strip out))\<rparr>]"
proof -
  have "normalized_text e ''Ffuf'' rc out
          = Inr (if rc = 0 then strip out else strip (''Error: '' @ strip out))"
    using assms(2,3)
    by (simp add: normalized_text_def clean_def clean_ffuf_def get_wildcard_length_def
        log_checking_codes_def strip_idem)
  from process_tool_finished [OF assms(1) this] show ?thesis by blast
qed

theorem ffuf_no_baseline_keeps_console_output_witness:
  "\<exists>st'. process_tool no_baseline_env ''Ffuf'' [''ffuf''] (initial_state (example_cfg ''ffuf''))
            = Finished st'
        \<and> results st' = [\<lparr>Tool = ''Ffuf'', Result = '':: Progress: [2/2] :: Errors: 0 ::''\<rparr>]"
proof -
  have 1: "spawn no_baseline_env [''ffuf''] = Exited 0 ffuf_console"
    by (simp add: no_baseline_env_def)
  have 2: "get_ffuf_results no_baseline_env = Inr
        [\<lparr>f_fuzz = ''admin'', f_status = 200, f_length = 1234, f_words = 10, f_lines = 3\<rparr>,
         \<lparr>f_fuzz = ''login'', f_status = 301, f_length = 987, f_words = 7, f_lines = 2\<rparr>]"
    by (simp add: no_baseline_env_def get_ffuf_results_def)
  have 3: "probe no_baseline_env = Inl ''Read timed out.''"
    by (simp add: no_baseline_env_def)
  have 4: "strip ffuf_console = '':: Progress: [2/2] :: Errors: 0 ::''"
    by code_simp
  from ffuf_no_baseline_keeps_console_output
    [OF 1 2 3, of "initial_state (example_cfg ''ffuf'')"]
  show ?thesis by (simp add: 4 initial_state_def)
qed

section \<open>Cleaning twice\<close>

lemma normalized_wafwoof:
  "normalized_text e ''Wafwoof'' 0 raw = Inr (strip (clean_wafwoof (strip raw)))"
  by (simp add: normalized_text_def clean_def log_checking_codes_zero)

lemma normalized_nmap:
  "normalized_text e ''Nmap'' 0 raw = Inr (strip (clean_nmap (strip raw)))"
  by (simp add: normalized_text_def clean_def log_checking_codes_zero)

lemma waf_marker_strip: "waf_marker l \<Longrightarrow> waf_marker (strip l)"
proof -
  have n: "\<not> isspace (CHR ''N'')" "\<not> isspace (CHR ''d'')" "\<not> isspace (CHR ''i'')"
    by (simp_all add: isspace_def)
  have 1: "contains ''No WAF detected'' l \<Longrightarrow> contains ''No WAF detected'' (strip l)"
    by (rule contains_strip) (simp_all add: n)
  have 2: "contains ''is behind'' l \<Longrightarrow> contains ''is behind'' (strip l)"
    by (rule contains_strip) (simp_all add: n)
  assume "waf_marker l"
  then show ?thesis unfolding waf_marker_def using 1 2 by blast
qed

lemma waf_marker_nonempty: "waf_marker l \<Longrightarrow> l \<noteq> []"
  by (auto simp add: waf_marker_def)

lemma wafwoof_fixed:
  "strip (clean_wafwoof (strip (strip (clean_wafwoof (strip raw)))))
     = strip (clean_wafwoof (strip raw))"
proof (cases "find waf_marker (splitlines (strip raw))")
  case None
  then have 1: "clean_wafwoof (strip raw) = strip raw" by (simp add: clean_wafwoof_def)
  show ?thesis by (simp add: 1 strip_idem)
next
  case (Some l)
  then have l: "l \<in> set (splitlines (strip raw))" "waf_marker l"
    by (auto simp add: find_Some_iff)
  let ?r = "strip l"
  have 1: "clean_wafwoof (strip raw) = l" using Some by (simp add: clean_wafwoof_def)
  have m: "waf_marker ?r" using l(2) by (rule waf_marker_strip)
  then have ne: "?r \<noteq> []" by (rule waf_marker_nonempty)
  have "\<forall>c \<in> set ?r. \<not> linebreak c"
    using splitlines_no_break [OF l(1)] set_strip [of l] by blast
  then have "splitlines ?r = [?r]" using ne by (simp add: splitlines_single)
  then have 2: "clean_wafwoof ?r = ?r" using m by (simp add: clean_wafwoof_def)
  show ?thesis by (simp add: 1 2 strip_idem)
qed

lemma clean_nmap_chars:
  assumes "c \<in> set (clean_nmap s)" "linebreak c"
  shows "c = CHR 0x0A"
proof -
  let ?fs = "filter (\<lambda>line. \<not> nmap_banner line) (splitlines s)"
  have "c \<in> set (strip (join [CHR 0x0A] ?fs))" using assms(1) unfolding clean_nmap_def .
  then have "c \<in> set (join [CHR 0x0A] ?fs)" using set_strip [of "join [CHR 0x0A] ?fs"] by (rule rev_subsetD)
  then have "c \<in> set [CHR 0x0A] \<union> \<Union> (set ` set ?fs)"
    using set_join [of "[CHR 0x0A]" ?fs] by (rule rev_subsetD)
  then consider "c = CHR 0x0A" | l where "l \<in> set ?fs" "c \<in> set l" by auto
  then show ?thesis
  proof cases
    case 1
    then show ?thesis .
  next
    case 2
    then have "l \<in> set (splitlines s)" by simp
    then have "\<not> linebreak c" using 2(2) by (rule splitlines_no_break)
    then show ?thesis using assms(2) by simp
  qed
qed

lemma clean_nmap_last: "clean_nmap s = [] \<or> last (clean_nmap s) \<noteq> CHR 0x0A"
proof -
  let ?j = "join [CHR 0x0A] (filter (\<lambda>line. \<not> nmap_banner line) (splitlines s))"
  have sp: "isspace (CHR 0x0A)" by (simp add: isspace_def)
  have "strip ?j = [] \<or> \<not> isspace (last (strip ?j))" using strip_ends [of ?j] by blast
  then have "strip ?j = [] \<or> last (strip ?j) \<noteq> CHR 0x0A" using sp by auto
  then show ?thesis unfolding clean_nmap_def .
qed

lemma nmap_fixed:
  assumes "\<forall>l \<in> set (splitlines (strip (clean_nmap (strip raw)))). \<not> nmap_banner l"
  shows "strip (clean_nmap (strip (strip (clean_nmap (strip raw))))) = strip (clean_nmap (strip raw))"
proof -
  let ?r = "clean_nmap (strip raw)"
  have s: "strip ?r = ?r" unfolding clean_nmap_def by (rule strip_idem)
  have f: "filter (\<lambda>line. \<not> nmap_banner line) (splitlines ?r) = splitlines ?r"
    using assms unfolding s by (simp add: filter_id_conv)
  have a: "\<forall>c \<in> set ?r. linebreak c \<longrightarrow> c = CHR 0x0A"
    using clean_nmap_chars [of _ "strip raw"] by blast
  have b: "?r = [] \<or> last ?r \<noteq> CHR 0x0A" by (rule clean_nmap_last)
  have j: "join [CHR 0x0A] (splitlines ?r) = ?r" by (rule join_splitlines [OF a b])
  have "clean_nmap ?r = strip ?r" unfolding clean_nmap_def [of ?r] f j ..
  then show ?thesis by (simp add: s)
qed


text \<open>
  Claim C4, as amended.  With exit code 0, cleaning the output of WafW00f a second time
  changes nothing.  Cleaning the output of Nmap a second time changes nothing whenever
  no line of the cleaned text starts with one of the banner prefixes.  (Nothing of the
  kind holds for WhatWeb, whose rule removes the first token at every pass.)
\<close>

theorem normalize_idempotent_wafwoof_nmap:
  "(\<exists>r. normalized_text e ''Wafwoof'' 0 raw = Inr r \<and> normalized_text e ''Wafwoof'' 0 r = Inr r)
   \<and> (\<exists>r. normalized_text e ''Nmap'' 0 raw = Inr r
          \<and> ((\<forall>l \<in> set (splitlines r). \<not> nmap_banner l)
               \<longrightarrow> normalized_text e ''Nmap'' 0 r = Inr r))"
  by (simp add: normalized_wafwoof normalized_nmap wafwoof_fixed nmap_fixed)

theorem normalize_idempotent_wafwoof_nmap_witness:
  "normalized_text example_env ''Wafwoof'' 0 waf_example
     = Inr ''[+] The site example.com is behind CloudFront''
   \<and> normalized_text example_env ''Wafwoof'' 0 ''[+] The site example.com is behind CloudFront''
     = Inr ''[+] The site example.com is behind CloudFront''
   \<and> normalized_text example_env ''Nmap'' 0 nmap_example
     = Inr (''PORT   STATE SERVICE VERSION'' @ [CHR 0x0A] @ ''80/tcp open  http    nginx'')
   \<and> normalized_text example_env ''Nmap'' 0
        (''PORT   STATE SERVICE VERSION'' @ [CHR 0x0A] @ ''80/tcp open  http    nginx'')
     = Inr (''PORT   STATE SERVICE VERSION'' @ [CHR 0x0A] @ ''80/tcp open  http    nginx'')"
proof -
  let ?w = "''[+] The site example.com is behind CloudFront''"
  let ?n = "''PORT   STATE SERVICE VERSION'' @ [CHR 0x0A] @ ''80/tcp open  http    nginx''"
  have 1: "normalized_text example_env ''Wafwoof'' 0 waf_example = Inr ?w"
    by code_simp
  have 2: "normalized_text example_env ''Nmap'' 0 nmap_example = Inr ?n"
    by code_simp
  have 3: "\<forall>l \<in> set (splitlines ?n). \<not> nmap_banner l"
    by code_simp
  from normalize_idempotent_wafwoof_nmap [of example_env waf_example] obtain r where
    a: "normalized_text example_env ''Wafwoof'' 0 waf_example = Inr r"
    and b: "normalized_text example_env ''Wafwoof'' 0 r = Inr r"
    by blast
  have "r = ?w" using a unfolding 1 by (rule sum.inject(2) [THEN iffD1, symmetric])
  then have w: "normalized_text example_env ''Wafwoof'' 0 ?w = Inr ?w" using b by blast
  from normalize_idempotent_wafwoof_nmap [of example_env nmap_example] obtain r' where
    c: "normalized_text example_env ''Nmap'' 0 nmap_example = Inr r'"
    and d: "(\<forall>l \<in> set (splitlines r'). \<not> nmap_banner l)
              \<longrightarrow> normalized_text example_env ''Nmap'' 0 r' = Inr r'"
    by blast
  have "r' = ?n" using c unfolding 2 by (rule sum.inject(2) [THEN iffD1, symmetric])
  then have n: "normalized_text example_env ''Nmap'' 0 ?n = Inr ?n" using d 3 by blast
  show ?thesis using 1 2 w n by blast
qed

text \<open>The claim as it was stated fails for WhatWeb on the specification's own example,
  and for Nmap when stripping uncovers an indented banner line.\<close>

theorem idempotence_counterexample:
  "normalized_text example_env ''Whatweb'' 0 ''http://x.com WhatWeb output'' = Inr ''WhatWeb output''
   \<and> normalized_text example_env ''Whatweb'' 0 ''WhatWeb output'' \<noteq> Inr ''WhatWeb output''
   \<and> normalized_text example_env ''Nmap'' 0 indented_banner = Inr ''Host is up (0.01s latency).''
   \<and> normalized_text example_env ''Nmap'' 0 ''Host is up (0.01s latency).''
         \<noteq> Inr ''Host is up (0.01s latency).''"
  by code_simp

end
